theory Spec2Isabelle
  imports Main "HOL-Library.Sublist" "HOL-Library.Product_Lexorder"
    "HOL-Library.Char_ord" "HOL-Library.List_Lexorder"
begin

section \<open>Annotated prefixes (nacaddr.IPv4 / nacaddr.IPv6)\<close>

text \<open>
  The exceptions that the module and the ipaddress primitives it calls can raise.
\<close>

datatype error =
  TypeError | ValueError | AddressValueError | PrefixlenDiffInvalidError
  | AssertionError | AttributeError

text \<open>
  An ipaddress network: its version (4 or 6), the integer of its network address and its
  prefix length. The two subclasses IPv4 and IPv6 of nacaddr add the same three fields
  and the same methods, so one record with a version field stands for both.
\<close>

record prefix =
  version :: nat
  network_address :: nat
  prefixlen :: nat

record nacaddr = prefix +
  text' :: string
  token :: string
  parent_token :: string

definition max_prefixlen :: "nat \<Rightarrow> nat" where
  "max_prefixlen v = (if v = 4 then 32 else 128)"

definition all_ones :: "nat \<Rightarrow> nat" where
  "all_ones v = 2 ^ max_prefixlen v - 1"

definition hostmask :: "'a prefix_scheme \<Rightarrow> nat" where
  "hostmask p = 2 ^ (max_prefixlen (version p) - prefixlen p) - 1"

definition netmask :: "'a prefix_scheme \<Rightarrow> nat" where
  "netmask p = all_ones (version p) - hostmask p"

text \<open>
  The network address is aligned to the prefix length (the constructor of an ipaddress
  network guarantees it), so the bitwise or of network address and host mask is their sum.
\<close>

definition broadcast_address :: "'a prefix_scheme \<Rightarrow> nat" where
  "broadcast_address p = network_address p + hostmask p"

text \<open>The invariant every constructed ipaddress network satisfies.\<close>

definition wf_prefix :: "'a prefix_scheme \<Rightarrow> bool" where
  "wf_prefix p \<longleftrightarrow>
     (version p = 4 \<or> version p = 6) \<and>
     prefixlen p \<le> max_prefixlen (version p) \<and>
     network_address p < 2 ^ max_prefixlen (version p) \<and>
     network_address p mod 2 ^ (max_prefixlen (version p) - prefixlen p) = 0"

text \<open>
  Address objects compare only within one version: \<open><\<close> and \<open><=\<close> between an IPv4 and an
  IPv6 address raise TypeError. An address is the pair of its version and its integer.
\<close>

type_synonym address = "nat \<times> nat"

definition addr_le :: "address \<Rightarrow> address \<Rightarrow> error + bool" where
  "addr_le a b = (if fst a \<noteq> fst b then Inl TypeError else Inr (snd a \<le> snd b))"

definition addr_lt :: "address \<Rightarrow> address \<Rightarrow> error + bool" where
  "addr_lt a b = (if fst a \<noteq> fst b then Inl TypeError else Inr (snd a < snd b))"

text \<open>Address plus integer: the constructor rejects a result beyond the all-ones address.\<close>

definition addr_add :: "address \<Rightarrow> nat \<Rightarrow> error + address" where
  "addr_add a k =
     (if snd a + k > all_ones (fst a) then Inl AddressValueError
      else Inr (fst a, snd a + k))"

definition network_addr :: "'a prefix_scheme \<Rightarrow> address" where
  "network_addr p = (version p, network_address p)"

definition broadcast_addr :: "'a prefix_scheme \<Rightarrow> address" where
  "broadcast_addr p = (version p, broadcast_address p)"

definition netmask_addr :: "'a prefix_scheme \<Rightarrow> address" where
  "netmask_addr p = (version p, netmask p)"

text \<open>\<open>_is_subnet_of(a, b)\<close> behind the version check of \<open>subnet_of\<close> and \<open>supernet_of\<close>.\<close>

definition is_subnet_of :: "'a prefix_scheme \<Rightarrow> 'b prefix_scheme \<Rightarrow> bool" where
  "is_subnet_of a b \<longleftrightarrow>
     network_address b \<le> network_address a \<and> broadcast_address a \<le> broadcast_address b"

definition subnet_of :: "'a prefix_scheme \<Rightarrow> 'b prefix_scheme \<Rightarrow> bool" where
  "subnet_of self other =
     (if version self \<noteq> version other then False else is_subnet_of self other)"

definition supernet_of :: "'a prefix_scheme \<Rightarrow> 'b prefix_scheme \<Rightarrow> bool" where
  "supernet_of self other =
     (if version self \<noteq> version other then False else is_subnet_of other self)"

text \<open>\<open>AddComment\<close>: the new value of \<open>self.text\<close>. Python's \<open>in\<close> on strings is the
  contiguous-substring test.\<close>

definition AddComment :: "nacaddr \<Rightarrow> string \<Rightarrow> nacaddr" where
  "AddComment self comment =
     (if text' self \<noteq> [] then
        (if comment \<noteq> [] \<and> \<not> sublist comment (text' self)
         then self\<lparr>text' := text' self @ '', '' @ comment\<rparr>
         else self)
      else self\<lparr>text' := comment\<rparr>)"

text \<open>
  The supernet of the ipaddress base class. At prefix length 0 it returns the network
  itself; otherwise it raises ValueError when the new prefix length would be negative, and
  else gives the prefix shortened by \<open>prefixlen_diff\<close> bits, its network address masked
  accordingly. The override below tests the first two cases before it calls the base class.
\<close>

definition base_supernet :: "'a prefix_scheme \<Rightarrow> nat \<Rightarrow> error + unit prefix_scheme" where
  "base_supernet p prefixlen_diff =
     (if prefixlen p = 0
      then Inr \<lparr>version = version p, network_address = network_address p,
                prefixlen = prefixlen p\<rparr>
      else if prefixlen p < prefixlen_diff then Inl ValueError
      else
        (let new_prefixlen = prefixlen p - prefixlen_diff;
             block = 2 ^ (max_prefixlen (version p) - new_prefixlen)
         in Inr \<lparr>version = version p,
                 network_address = network_address p - network_address p mod block,
                 prefixlen = new_prefixlen\<rparr>))"

text \<open>
  \<open>supernet\<close> of IPv4 and IPv6. \<open>Inl\<close> is the raised exception; the first result component
  tells whether the returned object is \<open>self\<close> itself (True) or a newly built object.
  A new object takes \<open>self.text\<close> and \<open>self.token\<close>; the constructor sets its
  \<open>parent_token\<close> to the token.
\<close>

definition supernet :: "nacaddr \<Rightarrow> nat \<Rightarrow> error + bool \<times> nacaddr" where
  "supernet self prefixlen_diff =
     (if prefixlen self = 0 then Inr (True, self)
      else if prefixlen self < prefixlen_diff then Inl PrefixlenDiffInvalidError
      else
        (case base_supernet self prefixlen_diff of
           Inl e \<Rightarrow> Inl e
         | Inr p \<Rightarrow>
             Inr (False,
               \<lparr>version = version p, network_address = network_address p,
                prefixlen = prefixlen p, text' = text' self, token = token self,
                parent_token = token self\<rparr>)))"

text \<open>
  \<open>IP(ip, comment, token)\<close> for an already parsed network: the constructors store the
  comment in \<open>text\<close> and the token in both \<open>token\<close> and \<open>parent_token\<close>. Both arguments
  default to the empty string.
\<close>

definition IP :: "prefix \<Rightarrow> string \<Rightarrow> string \<Rightarrow> nacaddr" where
  "IP x comment tok =
     \<lparr>version = version x, network_address = network_address x, prefixlen = prefixlen x,
      text' = comment, token = tok, parent_token = tok\<rparr>"

section \<open>The safety oracle\<close>

text \<open>
  \<open>_SafeToMerge\<close>. \<open>check_addresses\<close> is the dictionary from network address to the list of
  complement prefixes; \<open>.get(key, [])\<close> gives the empty list for a missing key. The chained
  comparison \<open>a <= b < c\<close> evaluates \<open>a <= b\<close> first and \<open>b < c\<close> only if that held.
\<close>

fun SafeToMerge_loop :: "nacaddr \<Rightarrow> nacaddr \<Rightarrow> nacaddr list \<Rightarrow> error + bool" where
  "SafeToMerge_loop address merge_target [] = Inr True"
| "SafeToMerge_loop address merge_target (check_address # rest) =
     (case addr_le (netmask_addr merge_target) (netmask_addr check_address) of
        Inl e \<Rightarrow> Inl e
      | Inr le \<Rightarrow>
          if \<not> le then SafeToMerge_loop address merge_target rest
          else
            (case addr_lt (netmask_addr check_address) (netmask_addr address) of
               Inl e \<Rightarrow> Inl e
             | Inr lt \<Rightarrow>
                 if lt then Inr False
                 else SafeToMerge_loop address merge_target rest))"

definition dict_get :: "('k \<rightharpoonup> 'v list) \<Rightarrow> 'k \<Rightarrow> 'v list" where
  "dict_get d k = (case d k of None \<Rightarrow> [] | Some v \<Rightarrow> v)"

definition SafeToMerge ::
  "nacaddr \<Rightarrow> nacaddr \<Rightarrow> (address \<rightharpoonup> nacaddr list) \<Rightarrow> error + bool" where
  "SafeToMerge address merge_target check_addresses =
     SafeToMerge_loop address merge_target
       (dict_get check_addresses (network_addr address))"

section \<open>The linked list and the fixed-point collapser\<close>

text \<open>
  Objects live in a heap (a list; a reference is an index, a new object is appended), since
  \<open>AddComment\<close> mutates the object a caller still holds. The nodes of \<open>_LinkedList\<close> live
  in an arena of their own; \<open>nxt\<close> and \<open>prv\<close> are the fields \<open>next\<close> and \<open>prev\<close>, \<open>val\<close> is the
  reference of the address object the node holds.
\<close>

record node =
  nxt :: "nat option"
  prv :: "nat option"
  val :: nat

definition LinkedList :: "nat \<Rightarrow> node" where
  "LinkedList v = \<lparr>nxt = None, prv = None, val = v\<rparr>"

definition Add :: "node list \<Rightarrow> nat \<Rightarrow> nat \<Rightarrow> node list \<times> nat" where
  "Add ns self v =
     (let new = length ns;
          ns1 = ns @ [LinkedList v];
          ns2 = ns1[self := (ns1 ! self)\<lparr>nxt := Some new\<rparr>];
          ns3 = ns2[new := (ns2 ! new)\<lparr>prv := Some self\<rparr>]
      in (ns3, new))"

definition RemoveNext :: "node list \<Rightarrow> nat \<Rightarrow> error + node list" where
  "RemoveNext ns self =
     (case nxt (ns ! self) of
        None \<Rightarrow> Inl AttributeError
      | Some n \<Rightarrow>
          (let new_next = nxt (ns ! n);
               ns1 = ns[n := (ns ! n)\<lparr>nxt := None\<rparr>];
               ns2 = ns1[n := (ns1 ! n)\<lparr>prv := None\<rparr>];
               ns3 = ns2[self := (ns2 ! self)\<lparr>nxt := new_next\<rparr>]
           in Inr (case new_next of
                     None \<Rightarrow> ns3
                   | Some m \<Rightarrow> ns3[m := (ns3 ! m)\<lparr>prv := Some self\<rparr>])))"

record collapse_state =
  heap :: "nacaddr list"
  nodes :: "node list"
  fringe :: "nat list"

text \<open>The complement dictionary holds references; the oracle reads the objects behind them.\<close>

definition deref :: "nacaddr list \<Rightarrow> (address \<rightharpoonup> nat list) \<Rightarrow> (address \<rightharpoonup> nacaddr list)" where
  "deref h d = (\<lambda>k. map_option (map (\<lambda>r. h ! r)) (d k))"

text \<open>
  The condition of the \<open>elif\<close>: four conjuncts, evaluated left to right and only as far as
  needed. The third adds one to the broadcast address, the fourth calls \<open>Supernet\<close>.
\<close>

definition mergeable_siblings :: "nacaddr \<Rightarrow> nacaddr \<Rightarrow> error + bool" where
  "mergeable_siblings cur_ip next_ip =
     (if version cur_ip \<noteq> version next_ip then Inr False
      else if prefixlen cur_ip \<noteq> prefixlen next_ip then Inr False
      else
        (case addr_add (broadcast_addr cur_ip) 1 of
           Inl e \<Rightarrow> Inl e
         | Inr b \<Rightarrow>
             if b \<noteq> network_addr next_ip then Inr False
             else
               (case supernet cur_ip 1 of
                  Inl e \<Rightarrow> Inl e
                | Inr res \<Rightarrow> Inr (network_addr (snd res) = network_addr cur_ip))))"

text \<open>
  The branch \<open>if cur_ip.supernet_of(next_ip)\<close>: the comment of \<open>next_ip\<close> is added to the
  object \<open>cur_ip\<close>, the next node is unlinked and \<open>cur\<close> goes back to the front of the fringe.
\<close>

definition subsume_next :: "collapse_state \<Rightarrow> nat \<Rightarrow> nat list \<Rightarrow> nat \<Rightarrow> nat \<Rightarrow> error + collapse_state" where
  "subsume_next s cur rest cur_ip next_ip =
     (let h1 = (heap s)[cur_ip := AddComment (heap s ! cur_ip) (text' (heap s ! next_ip))]
      in case RemoveNext (nodes s) cur of
           Inl e \<Rightarrow> Inl e
         | Inr ns \<Rightarrow> Inr \<lparr>heap = h1, nodes = ns, fringe = cur # rest\<rparr>)"

text \<open>
  The body of the \<open>elif\<close>: comment added to \<open>cur.val\<close> (the object \<open>cur_ip\<close>), next node
  unlinked, \<open>cur.val\<close> replaced by the object \<open>cur_ip.Supernet()\<close> returns, \<open>cur\<close> pushed to
  the front of the fringe and its predecessor, if any, to the back.
\<close>

definition merge_with_next :: "collapse_state \<Rightarrow> nat \<Rightarrow> nat list \<Rightarrow> nat \<Rightarrow> nat \<Rightarrow> error + collapse_state" where
  "merge_with_next s cur rest cur_ip next_ip =
     (let h1 = (heap s)[cur_ip := AddComment (heap s ! cur_ip) (text' (heap s ! next_ip))]
      in case RemoveNext (nodes s) cur of
           Inl e \<Rightarrow> Inl e
         | Inr ns \<Rightarrow>
             (case supernet (h1 ! cur_ip) 1 of
                Inl e \<Rightarrow> Inl e
              | Inr res \<Rightarrow>
                  (let h2 = (if fst res then h1 else h1 @ [snd res]);
                       r = (if fst res then cur_ip else length h1);
                       ns2 = ns[cur := (ns ! cur)\<lparr>val := r\<rparr>];
                       fr = cur # rest
                   in Inr \<lparr>heap = h2, nodes = ns2,
                           fringe = (case prv (ns2 ! cur) of
                                       None \<Rightarrow> fr
                                     | Some p \<Rightarrow> fr @ [p])\<rparr>)))"

text \<open>One pass through the body of \<open>while fringe\<close>.\<close>

definition collapse_step ::
  "(address \<rightharpoonup> nat list) \<Rightarrow> collapse_state \<Rightarrow> error + collapse_state" where
  "collapse_step complements_by_network s =
     (case fringe s of
        [] \<Rightarrow> Inr s
      | cur # rest \<Rightarrow>
          (case nxt (nodes s ! cur) of
             None \<Rightarrow> Inr (s\<lparr>fringe := rest\<rparr>)
           | Some n \<Rightarrow>
               (let cur_ip = val (nodes s ! cur);
                    next_ip = val (nodes s ! n)
                in
                  case SafeToMerge (heap s ! next_ip) (heap s ! cur_ip)
                         (deref (heap s) complements_by_network) of
                    Inl e \<Rightarrow> Inl e
                  | Inr safe \<Rightarrow>
                      if \<not> safe then Inr (s\<lparr>fringe := rest\<rparr>)
                      else if supernet_of (heap s ! cur_ip) (heap s ! next_ip) then
                        subsume_next s cur rest cur_ip next_ip
                      else
                        (case mergeable_siblings (heap s ! cur_ip) (heap s ! next_ip) of
                           Inl e \<Rightarrow> Inl e
                         | Inr sib \<Rightarrow>
                             if sib then merge_with_next s cur rest cur_ip next_ip
                             else Inr (s\<lparr>fringe := rest\<rparr>)))))"

partial_function (option) collapse_loop ::
  "(address \<rightharpoonup> nat list) \<Rightarrow> collapse_state \<Rightarrow> (error + collapse_state) option" where
  "collapse_loop complements_by_network s =
     (if fringe s = [] then Some (Inr s)
      else
        (case collapse_step complements_by_network s of
           Inl e \<Rightarrow> Some (Inl e)
         | Inr s' \<Rightarrow> collapse_loop complements_by_network s'))"

declare collapse_loop.simps [code]

text \<open>\<open>while addrs: ret_array.append(addrs.val); addrs = addrs.next\<close>\<close>

partial_function (option) package_results ::
  "node list \<Rightarrow> nat option \<Rightarrow> nat list \<Rightarrow> nat list option" where
  "package_results ns addrs ret_array =
     (case addrs of
        None \<Rightarrow> Some ret_array
      | Some a \<Rightarrow> package_results ns (nxt (ns ! a)) (ret_array @ [val (ns ! a)]))"

declare package_results.simps [code]

text \<open>The \<open>for\<close> loop that copies the addresses into the linked list and the fringe.\<close>

definition build_list :: "nat list \<Rightarrow> node list \<times> nat \<times> nat list \<Rightarrow> node list \<times> nat \<times> nat list" where
  "build_list addresses init =
     fold (\<lambda>addr (ns, node, fr). (case Add ns node addr of (ns', new) \<Rightarrow> (ns', new, fr @ [new])))
       addresses init"

text \<open>
  \<open>_CollapseAddrListInternal\<close>: \<open>None\<close> if a loop does not return, otherwise the raised
  exception or the returned list of references together with the heap it leaves behind.
\<close>

definition CollapseAddrListInternal ::
  "nacaddr list \<Rightarrow> nat list \<Rightarrow> (address \<rightharpoonup> nat list) \<Rightarrow> (error + nat list \<times> nacaddr list) option" where
  "CollapseAddrListInternal h addresses complements_by_network =
     (case addresses of
        [] \<Rightarrow> Some (Inr (addresses, h))
      | a0 # rest \<Rightarrow>
          (case build_list rest ([LinkedList a0], 0, [0]) of
             (ns, node, fr) \<Rightarrow>
               (case collapse_loop complements_by_network \<lparr>heap = h, nodes = ns, fringe = fr\<rparr> of
                  None \<Rightarrow> None
                | Some (Inl e) \<Rightarrow> Some (Inl e)
                | Some (Inr s) \<Rightarrow>
                    (case package_results (nodes s) (Some 0) [] of
                       None \<Rightarrow> None
                     | Some ret_array \<Rightarrow> Some (Inr (ret_array, heap s))))))"

text \<open>\<open>ipaddress.get_mixed_type_key\<close> of a network: version, network address, net mask.\<close>

definition get_mixed_type_key :: "'a prefix_scheme \<Rightarrow> nat \<times> nat \<times> nat" where
  "get_mixed_type_key p = (version p, network_address p, netmask p)"

definition complements_dict ::
  "nacaddr list \<Rightarrow> nat list \<Rightarrow> nat list \<Rightarrow> (address \<rightharpoonup> nat list)" where
  "complements_dict h addresses complement_addresses =
     fold (\<lambda>ca d.
            if network_addr (h ! ca) \<in> set (map (\<lambda>a. network_addr (h ! a)) addresses)
            then d(network_addr (h ! ca) \<mapsto> dict_get d (network_addr (h ! ca)) @ [ca])
            else d)
       complement_addresses Map.empty"

text \<open>\<open>CollapseAddrList\<close>; \<open>sorted\<close> is stable, as \<open>sort_key\<close> is.\<close>

definition CollapseAddrList ::
  "nacaddr list \<Rightarrow> nat list \<Rightarrow> nat list option \<Rightarrow> (error + nat list \<times> nacaddr list) option" where
  "CollapseAddrList h addresses complement_addresses =
     CollapseAddrListInternal h
       (sort_key (\<lambda>a. get_mixed_type_key (h ! a)) addresses)
       (complements_dict h addresses
          (case complement_addresses of None \<Rightarrow> [] | Some cs \<Rightarrow> cs))"

definition SortAddrList :: "nacaddr list \<Rightarrow> nat list \<Rightarrow> nat list" where
  "SortAddrList h addresses = sort_key (\<lambda>a. get_mixed_type_key (h ! a)) addresses"

section \<open>The token-preserving collapser\<close>

fun InNetList :: "nacaddr list \<Rightarrow> nat list \<Rightarrow> nat \<Rightarrow> bool" where
  "InNetList h [] ip = False"
| "InNetList h (addr # adders) ip =
     (if subnet_of (h ! ip) (h ! addr) then True else InNetList h adders ip)"

fun IsSuperNet :: "nacaddr list \<Rightarrow> nat list \<Rightarrow> nat list \<Rightarrow> bool" where
  "IsSuperNet h supernets [] = True"
| "IsSuperNet h supernets (net # subnets) =
     (if \<not> InNetList h supernets net then False else IsSuperNet h supernets subnets)"

text \<open>\<open>itertools.groupby\<close>: the maximal runs of consecutive elements with equal keys.\<close>

function groupby :: "('a \<Rightarrow> 'k) \<Rightarrow> 'a list \<Rightarrow> 'a list list" where
  "groupby f [] = []"
| "groupby f (x # xs) =
     (x # takeWhile (\<lambda>y. f y = f x) xs) # groupby f (dropWhile (\<lambda>y. f y = f x) xs)"
  by pat_completeness auto
termination
  by (relation "measure (\<lambda>(f, xs). length xs)") (auto simp: length_dropWhile_le less_Suc_eq_le)

text \<open>
  The first loop of \<open>CollapseAddrListPreserveTokens\<close>: each group is collapsed in turn, on
  the heap the previous call left.
\<close>

fun collapse_groups ::
  "nacaddr list \<Rightarrow> nat list list \<Rightarrow> (error + nat list list \<times> nacaddr list) option" where
  "collapse_groups h [] = Some (Inr ([], h))"
| "collapse_groups h (grp # grps) =
     (case CollapseAddrList h grp None of
        None \<Rightarrow> None
      | Some (Inl e) \<Rightarrow> Some (Inl e)
      | Some (Inr res) \<Rightarrow>
          (case collapse_groups (snd res) grps of
             None \<Rightarrow> None
           | Some (Inl e) \<Rightarrow> Some (Inl e)
           | Some (Inr res') \<Rightarrow> Some (Inr (fst res # fst res', snd res'))))"

definition del_nth :: "'a list \<Rightarrow> nat \<Rightarrow> 'a list" where
  "del_nth xs k = take k xs @ drop (Suc k) xs"

text \<open>
  The inner \<open>while k < len(dedup_array)\<close>; the result is \<open>to_add\<close> and the list as the loop
  leaves it. After \<open>del dedup_array[k]\<close> the index is still incremented.
\<close>

function dedup_scan ::
  "nacaddr list \<Rightarrow> nat list \<Rightarrow> nat \<Rightarrow> nat list list \<Rightarrow> bool \<times> nat list list" where
  "dedup_scan h ip k dedup_array =
     (if k < length dedup_array then
        (if IsSuperNet h (dedup_array ! k) ip then (False, dedup_array)
         else if IsSuperNet h ip (dedup_array ! k)
         then dedup_scan h ip (k + 1) (del_nth dedup_array k)
         else dedup_scan h ip (k + 1) dedup_array)
      else (True, dedup_array))"
  by pat_completeness auto
termination
  by (relation "measure (\<lambda>(h, ip, k, d). length d - k)") (auto simp: del_nth_def)

text \<open>The outer loop: \<open>ip = ret_array.pop(0)\<close> until \<open>ret_array\<close> is empty.\<close>

fun dedup_loop :: "nacaddr list \<Rightarrow> nat list list \<Rightarrow> nat list list \<Rightarrow> nat list list" where
  "dedup_loop h [] dedup_array = dedup_array"
| "dedup_loop h (ip # ret_array) dedup_array =
     (case dedup_scan h ip 0 dedup_array of
        (to_add, dedup_array') \<Rightarrow>
          dedup_loop h ret_array (if to_add then dedup_array' @ [ip] else dedup_array'))"

text \<open>
  \<open>CollapseAddrListPreserveTokens\<close>. No statement of the module assigns \<open>parent_token\<close>
  after construction, so the keys \<open>groupby\<close> reads lazily are the ones \<open>sorted\<close> read.
\<close>

definition CollapseAddrListPreserveTokens ::
  "nacaddr list \<Rightarrow> nat list \<Rightarrow> (error + nat list \<times> nacaddr list) option" where
  "CollapseAddrListPreserveTokens h addresses =
     (case collapse_groups h
             (groupby (\<lambda>x. parent_token (h ! x))
                (sort_key (\<lambda>x. parent_token (h ! x)) addresses)) of
        None \<Rightarrow> None
      | Some (Inl e) \<Rightarrow> Some (Inl e)
      | Some (Inr res) \<Rightarrow> Some (Inr (concat (dedup_loop (snd res) (fst res) []), snd res)))"

section \<open>Exclusion\<close>

text \<open>
  \<open>subnets()\<close> with the default \<open>prefixlen_diff=1\<close>, as \<open>address_exclude\<close> uses it: the two
  halves of a network. A network of maximal prefix length (no prefix is longer) yields only
  itself, and the unpacking \<open>s1, s2 = ...\<close> raises ValueError.
\<close>

definition subnets :: "'a prefix_scheme \<Rightarrow> error + prefix \<times> prefix" where
  "subnets p =
     (if prefixlen p \<ge> max_prefixlen (version p) then Inl ValueError
      else
        Inr (\<lparr>version = version p, network_address = network_address p,
              prefixlen = prefixlen p + 1\<rparr>,
             \<lparr>version = version p,
              network_address =
                network_address p + 2 ^ (max_prefixlen (version p) - (prefixlen p + 1)),
              prefixlen = prefixlen p + 1\<rparr>))"

text \<open>\<open>__eq__\<close> of networks: same version, network address and net mask.\<close>

definition net_eq :: "'a prefix_scheme \<Rightarrow> 'b prefix_scheme \<Rightarrow> bool" where
  "net_eq a b \<longleftrightarrow>
     version a = version b \<and> network_address a = network_address b \<and> netmask a = netmask b"

text \<open>
  The loop of \<open>address_exclude\<close>. Its state \<open>s1, s2\<close> is always the pair of halves of one
  network (first of \<open>self\<close>, then of the half that contains \<open>other\<close>); the function takes that
  network. The yielded networks are collected in order.
\<close>

function address_exclude_loop :: "prefix \<Rightarrow> prefix \<Rightarrow> error + prefix list" where
  "address_exclude_loop p other =
     (case subnets p of
        Inl e \<Rightarrow> Inl e
      | Inr halves \<Rightarrow>
          (if net_eq (fst halves) other then Inr [snd halves]
           else if net_eq (snd halves) other then Inr [fst halves]
           else if subnet_of other (fst halves) then
             (case address_exclude_loop (fst halves) other of
                Inl e \<Rightarrow> Inl e
              | Inr rest \<Rightarrow> Inr (snd halves # rest))
           else if subnet_of other (snd halves) then
             (case address_exclude_loop (snd halves) other of
                Inl e \<Rightarrow> Inl e
              | Inr rest \<Rightarrow> Inr (fst halves # rest))
           else Inl AssertionError))"
  by pat_completeness auto
termination
  by (relation "measure (\<lambda>(p, other). max_prefixlen (version p) - prefixlen p)")
     (auto simp: subnets_def max_prefixlen_def split: if_splits)

declare address_exclude_loop.simps [simp del]

definition pfx :: "'a prefix_scheme \<Rightarrow> prefix" where
  "pfx p = \<lparr>version = version p, network_address = network_address p, prefixlen = prefixlen p\<rparr>"

definition address_exclude :: "'a prefix_scheme \<Rightarrow> 'b prefix_scheme \<Rightarrow> error + prefix list" where
  "address_exclude self other =
     (if version self \<noteq> version other then Inl TypeError
      else if \<not> subnet_of other self then Inl ValueError
      else if net_eq other self then Inr []
      else address_exclude_loop (pfx self) (pfx other))"

text \<open>
  \<open>sorted\<close> on networks compares with \<open><\<close>, which raises TypeError between an IPv4 and an
  IPv6 network and otherwise orders by network address, then net mask.
\<close>

definition sorted_nets :: "nacaddr list \<Rightarrow> nat list \<Rightarrow> error + nat list" where
  "sorted_nets h xs =
     (if \<exists>a \<in> set xs. \<exists>b \<in> set xs. version (h ! a) \<noteq> version (h ! b) then Inl TypeError
      else Inr (sort_key (\<lambda>a. (network_address (h ! a), netmask (h ! a))) xs))"

text \<open>The \<open>for\<close> loop of \<open>RemoveAddressFromList\<close>, threading the heap for the new objects.\<close>

fun RemoveAddressFromList_loop ::
  "nacaddr list \<Rightarrow> nat list \<Rightarrow> nat \<Rightarrow> nat list \<Rightarrow> error + nat list \<times> nacaddr list" where
  "RemoveAddressFromList_loop h [] exclude ret_array = Inr (ret_array, h)"
| "RemoveAddressFromList_loop h (addr # superset) exclude ret_array =
     (if net_eq (h ! exclude) (h ! addr) \<or> subnet_of (h ! addr) (h ! exclude) then
        RemoveAddressFromList_loop h superset exclude ret_array
      else if version (h ! exclude) = version (h ! addr) \<and> subnet_of (h ! exclude) (h ! addr) then
        (case address_exclude (h ! addr) (h ! exclude) of
           Inl e \<Rightarrow> Inl e
         | Inr xs \<Rightarrow>
             RemoveAddressFromList_loop (h @ map (\<lambda>x. IP x [] []) xs) superset exclude
               (ret_array @ [length h ..< length h + length xs]))
      else RemoveAddressFromList_loop h superset exclude (ret_array @ [addr]))"

definition RemoveAddressFromList ::
  "nacaddr list \<Rightarrow> nat list \<Rightarrow> nat \<Rightarrow> error + nat list \<times> nacaddr list" where
  "RemoveAddressFromList h superset exclude =
     (case RemoveAddressFromList_loop h superset exclude [] of
        Inl e \<Rightarrow> Inl e
      | Inr res \<Rightarrow>
          (case sorted_nets (snd res) (fst res) of
             Inl e \<Rightarrow> Inl e
           | Inr ret_array \<Rightarrow> Inr (ret_array, snd res)))"










section \<open>Frames\<close>

text \<open>
  Two states of one object that differ at most in the comment text, the old text being a
  prefix of the new one; and two heaps of which the second keeps every object of the first
  in this sense (it may hold more objects).
\<close>

definition same_but_text :: "nacaddr \<Rightarrow> nacaddr \<Rightarrow> bool" where
  "same_but_text a b \<longleftrightarrow>
     version b = version a \<and> network_address b = network_address a \<and> prefixlen b = prefixlen a
     \<and> token b = token a \<and> parent_token b = parent_token a \<and> prefix (text' a) (text' b)"

definition frame :: "nacaddr list \<Rightarrow> nacaddr list \<Rightarrow> bool" where
  "frame h h' \<longleftrightarrow> length h \<le> length h' \<and> (\<forall>i<length h. same_but_text (h ! i) (h' ! i))"

section \<open>Blocks and halves\<close>

text \<open>The number of addresses of a network, and the two halves that \<open>subnets\<close> yields.\<close>

definition bsize :: "'a prefix_scheme \<Rightarrow> nat" where
  "bsize p = 2 ^ (max_prefixlen (version p) - prefixlen p)"

definition lo_half :: "'a prefix_scheme \<Rightarrow> prefix" where
  "lo_half p = \<lparr>version = version p, network_address = network_address p,
                prefixlen = prefixlen p + 1\<rparr>"

definition hi_half :: "'a prefix_scheme \<Rightarrow> prefix" where
  "hi_half p = \<lparr>version = version p,
                network_address = network_address p + 2 ^ (max_prefixlen (version p) - (prefixlen p + 1)),
                prefixlen = prefixlen p + 1\<rparr>"

section \<open>Example networks\<close>

text \<open>An IPv4 network from the integer of its address and its prefix length.\<close>

definition net4 :: "nat \<Rightarrow> nat \<Rightarrow> prefix" where
  "net4 a l = \<lparr>version = 4, network_address = a, prefixlen = l\<rparr>"

definition net6 :: "nat \<Rightarrow> nat \<Rightarrow> prefix" where
  "net6 a l = \<lparr>version = 6, network_address = a, prefixlen = l\<rparr>"

text \<open>10.0.0.0/8 with comment "sup" and token "t", and 10.0.0.0/9 to be excluded from it.\<close>

definition sup_heap :: "nacaddr list" where
  "sup_heap = [IP (net4 167772160 8) ''sup'' ''t'', IP (net4 167772160 9) [] []]"

text \<open>
  Three networks with three tokens: 10.0.0.0/24 of token a, 10.0.1.0/24 of token b and
  10.0.0.0/16 of token c, which contains the other two.
\<close>

definition tok_heap :: "nacaddr list" where
  "tok_heap = [IP (net4 167772160 24) [] ''a'', IP (net4 167772416 24) [] ''b'',
               IP (net4 167772160 16) [] ''c'']"

section \<open>Running the collapser\<close>

text \<open>
  One turn of the worklist loop, the loop on a list whose queued nodes have no successor,
  and the packaging of a one-node list.
\<close>

lemma collapse_loop_step:
  "fringe s \<noteq> [] \<Longrightarrow> collapse_step C s = Inr s' \<Longrightarrow> collapse_loop C s = collapse_loop C s'"
  by (subst collapse_loop.simps) simp

lemma collapse_loop_done: "fringe s = [] \<Longrightarrow> collapse_loop C s = Some (Inr s)"
  by (subst collapse_loop.simps) simp

lemma collapse_step_no_next:
  "fringe s = cur # rest \<Longrightarrow> nxt (nodes s ! cur) = None \<Longrightarrow>
   collapse_step C s = Inr (s\<lparr>fringe := rest\<rparr>)"
  by (simp add: collapse_step_def)

lemma collapse_loop_idle:
  "\<forall>i\<in>set fr. nxt (ns ! i) = None \<Longrightarrow>
   collapse_loop C \<lparr>heap = h, nodes = ns, fringe = fr\<rparr> = Some (Inr \<lparr>heap = h, nodes = ns, fringe = []\<rparr>)"
proof (induction fr)
  case Nil
  show ?case by (rule collapse_loop_done) simp
next
  case (Cons i fr)
  have "collapse_step C \<lparr>heap = h, nodes = ns, fringe = i # fr\<rparr>
        = Inr (\<lparr>heap = h, nodes = ns, fringe = i # fr\<rparr>\<lparr>fringe := fr\<rparr>)"
    using Cons.prems by (simp add: collapse_step_def)
  then have "collapse_loop C \<lparr>heap = h, nodes = ns, fringe = i # fr\<rparr>
        = collapse_loop C \<lparr>heap = h, nodes = ns, fringe = fr\<rparr>"
    by (subst collapse_loop.simps) simp
  then show ?case using Cons by simp
qed

lemma package_results_single:
  "nxt (ns ! a) = None \<Longrightarrow> package_results ns (Some a) acc = Some (acc @ [val (ns ! a)])"
  by (subst package_results.simps, simp, subst package_results.simps, simp)

lemma AddComment_fields [simp]:
  "version (AddComment p c) = version p" "network_address (AddComment p c) = network_address p"
  "prefixlen (AddComment p c) = prefixlen p" "token (AddComment p c) = token p"
  "parent_token (AddComment p c) = parent_token p"
  by (simp_all add: AddComment_def)

lemmas step_eval = collapse_step_def SafeToMerge_def dict_get_def deref_def network_addr_def
  supernet_of_def is_subnet_of_def broadcast_address_def mergeable_siblings_def addr_add_def
  broadcast_addr_def supernet_def base_supernet_def subsume_next_def merge_with_next_def
  RemoveNext_def netmask_def all_ones_def hostmask_def max_prefixlen_def Let_def

lemma build_list_two:
  "build_list [Suc 0] ([LinkedList 0], 0, [0]) =
     ([\<lparr>nxt = Some (Suc 0), prv = None, val = 0\<rparr>, \<lparr>nxt = None, prv = Some 0, val = Suc 0\<rparr>],
      Suc 0, [0, Suc 0])"
  by (simp add: build_list_def Add_def LinkedList_def)

text \<open>
  The siblings 1.1.0.0/24 and 1.1.1.0/24 with any two comments: the first object takes the
  second's comment by \<open>AddComment\<close>, and the new object 1.1.0.0/23 carries the resulting
  text.
\<close>

lemma collapse_pair:
  "CollapseAddrList [IP (net4 16842752 24) ta [], IP (net4 16843008 24) tb []] [0, 1] None
   = Some (Inr ([2], [AddComment (IP (net4 16842752 24) ta []) tb, IP (net4 16843008 24) tb [],
                      IP (net4 16842752 23) (text' (AddComment (IP (net4 16842752 24) ta []) tb)) []]))"
proof -
  let ?h0 = "[IP (net4 16842752 24) ta [], IP (net4 16843008 24) tb []]"
  let ?h1 = "[AddComment (IP (net4 16842752 24) ta []) tb, IP (net4 16843008 24) tb [],
                      IP (net4 16842752 23) (text' (AddComment (IP (net4 16842752 24) ta []) tb)) []]"
  let ?ns0 = "[\<lparr>nxt = Some (Suc 0), prv = None, val = 0\<rparr>, \<lparr>nxt = None, prv = Some 0, val = Suc 0\<rparr>]"
  let ?ns1 = "[\<lparr>nxt = None, prv = None, val = 2\<rparr>, \<lparr>nxt = None, prv = None, val = Suc 0\<rparr>]"
  have dict: "complements_dict ?h0 [0, Suc 0] [] = Map.empty"
    by (simp add: complements_dict_def)
  have st: "collapse_step Map.empty \<lparr>heap = ?h0, nodes = ?ns0, fringe = [0, Suc 0]\<rparr>
      = Inr \<lparr>heap = ?h1, nodes = ?ns1, fringe = [0, Suc 0]\<rparr>"
    by (simp add: step_eval IP_def net4_def)
  have idle: "collapse_loop Map.empty \<lparr>heap = ?h1, nodes = ?ns1, fringe = [0, Suc 0]\<rparr>
      = Some (Inr \<lparr>heap = ?h1, nodes = ?ns1, fringe = []\<rparr>)"
    by (rule collapse_loop_idle) simp
  have loop: "collapse_loop Map.empty \<lparr>heap = ?h0, nodes = ?ns0, fringe = [0, Suc 0]\<rparr>
      = Some (Inr \<lparr>heap = ?h1, nodes = ?ns1, fringe = []\<rparr>)"
    using collapse_loop_step[OF _ st] idle by simp
  have pk: "package_results ?ns1 (Some 0) [] = Some [2]"
    using package_results_single[of ?ns1 0 "[]"] by simp
  have kle: "get_mixed_type_key (IP (net4 16842752 24) ta []) \<le> get_mixed_type_key (IP (net4 16843008 24) tb [])"
    by (simp add: get_mixed_type_key_def netmask_def all_ones_def hostmask_def max_prefixlen_def
          IP_def net4_def)
  show ?thesis
    by (simp add: CollapseAddrList_def kle dict CollapseAddrListInternal_def build_list_two loop pk)
qed

text \<open>A one-element list comes back as it is.\<close>

lemma CollapseAddrList_single:
  "CollapseAddrList h [a] None = Some (Inr ([a], h))"
proof -
  have idle: "collapse_loop Map.empty \<lparr>heap = h, nodes = [LinkedList a], fringe = [0]\<rparr>
      = Some (Inr \<lparr>heap = h, nodes = [LinkedList a], fringe = []\<rparr>)"
    by (rule collapse_loop_idle) (simp add: LinkedList_def)
  have pk: "package_results [LinkedList a] (Some 0) [] = Some [a]"
    using package_results_single[of "[LinkedList a]" 0 "[]"] by (simp add: LinkedList_def)
  show ?thesis
    by (simp add: CollapseAddrList_def complements_dict_def CollapseAddrListInternal_def
          build_list_def idle pk)
qed

section \<open>The comment rule\<close>

lemma sublist_after_separator: "sublist c (t @ x # y # c)"
  using sublist_append_leftI[of c "t @ [x, y]"] by simp

text \<open>
  Claim C10. \<open>AddComment\<close> is idempotent: adding the same comment a second time leaves the
  text as the first call left it; and adding the empty comment never changes the object.
\<close>

theorem AddComment_idempotent:
  "AddComment (AddComment p c) c = AddComment p c \<and> AddComment p [] = p"
  by (simp add: AddComment_def sublist_after_separator)

text \<open>
  Claim C6. \<open>AddComment\<close> changes nothing but the comment text; the new text is the given
  comment when the old text is empty, the old text followed by \<open>", "\<close> and the comment when
  the comment is non-empty and not a substring of the old text, and the old text otherwise.
  Consequently collapsing 1.1.0.0/24 with comment "a" and 1.1.1.0/24 with comment "b"
  returns the single new object 1.1.0.0/23 with comment "a, b", and with the comments "a"
  and "a" the single new object 1.1.0.0/23 with comment "a". (The heap after the call is
  given in full: objects 0 and 1 are the arguments, object 2 is the result.)
\<close>

theorem AddComment_rule:
  "text' (AddComment p c) =
     (if text' p = [] then c
      else if c \<noteq> [] \<and> \<not> sublist c (text' p) then text' p @ '', '' @ c
      else text' p)
   \<and> AddComment p c = p\<lparr>text' := text' (AddComment p c)\<rparr>
   \<and> CollapseAddrList [IP (net4 16842752 24) ''a'' [], IP (net4 16843008 24) ''b'' []] [0, 1] None
       = Some (Inr ([2], [IP (net4 16842752 24) ''a, b'' [], IP (net4 16843008 24) ''b'' [],
                          IP (net4 16842752 23) ''a, b'' []]))
   \<and> CollapseAddrList [IP (net4 16842752 24) ''a'' [], IP (net4 16843008 24) ''a'' []] [0, 1] None
       = Some (Inr ([2], [IP (net4 16842752 24) ''a'' [], IP (net4 16843008 24) ''a'' [],
                          IP (net4 16842752 23) ''a'' []]))"
  using collapse_pair[of "''a''" "''b''"] collapse_pair[of "''a''" "''a''"]
  by (simp add: AddComment_def IP_def sublist_code prefix_code)

section \<open>Token partitions\<close>

text \<open>
  The three one-element partitions of \<open>tok_heap\<close>, in the order of their tokens, each
  collapsed to itself. The scan for the third partition deletes the first accepted one and
  then moves its index past the second.
\<close>

lemma tok_sorted: "sort_key (\<lambda>x. parent_token (tok_heap ! x)) [0, 1, 2] = [0, 1, 2]"
  by (simp add: tok_heap_def IP_def)

lemma tok_groups: "groupby (\<lambda>x. parent_token (tok_heap ! x)) [0, 1, 2] = [[0], [1], [2]]"
  by (simp add: tok_heap_def IP_def)

lemma tok_collapse:
  "collapse_groups tok_heap [[0], [1], [2]] = Some (Inr ([[0], [1], [2]], tok_heap))"
  by (simp add: CollapseAddrList_single)

lemmas sub_eval = subnet_of_def is_subnet_of_def broadcast_address_def hostmask_def
  max_prefixlen_def tok_heap_def IP_def net4_def

lemma tok_dedup: "dedup_loop tok_heap [[0], [1], [2]] [] = [[1], [2]]"
  by (simp add: sub_eval del_nth_def)

text \<open>
  Claim C5: \<open>CollapseAddrListPreserveTokens\<close> never merges prefixes of different parent
  tokens, and drops every token partition whose members are all contained in members of
  another partition that is kept. The code intends the second part (\<open>del dedup_array[k]\<close>
  when the new partition consumes an accepted one) but does otherwise: after the deletion
  the index is still incremented, so the partition that moved into place \<open>k\<close> is never
  examined. For 10.0.0.0/24 (token a), 10.0.1.0/24 (token b) and 10.0.0.0/16 (token c) the
  result keeps 10.0.1.0/24 beside 10.0.0.0/16, although the partition of token c, which is
  kept, consumes the partition of token b.
\<close>

theorem PreserveTokens_keeps_consumed_partition:
  "CollapseAddrListPreserveTokens tok_heap [0, 1, 2] = Some (Inr ([1, 2], tok_heap))
   \<and> IsSuperNet tok_heap [2] [1]
   \<and> parent_token (tok_heap ! 1) \<noteq> parent_token (tok_heap ! 2)"
proof -
  have "CollapseAddrListPreserveTokens tok_heap [0, 1, 2] = Some (Inr ([1, 2], tok_heap))"
    unfolding CollapseAddrListPreserveTokens_def tok_sorted tok_groups tok_collapse
    by (simp only: option.case sum.case fst_conv snd_conv tok_dedup) simp
  moreover have "IsSuperNet tok_heap [2] [1]"
    by (simp add: sub_eval)
  moreover have "parent_token (tok_heap ! 1) \<noteq> parent_token (tok_heap ! 2)"
    by (simp add: tok_heap_def IP_def)
  ultimately show ?thesis by simp
qed

section \<open>Excluding one prefix from another\<close>

text \<open>
  The size of a network's block of addresses; the two halves \<open>subnets\<close> yields; and the
  facts of CIDR arithmetic that make \<open>address_exclude\<close> return: a well-formed network
  strictly inside another lies in exactly one of its halves.
\<close>

lemma bsize_pos: "0 < bsize p" by (simp add: bsize_def)

lemma hostmask_bsize: "hostmask p = bsize p - 1" by (simp add: hostmask_def bsize_def)

lemma broadcast_bsize: "broadcast_address p = network_address p + bsize p - 1"
  using bsize_pos[of p] unfolding broadcast_address_def hostmask_bsize by linarith

lemma is_subnet_of_bsize:
  "is_subnet_of a b \<longleftrightarrow>
     network_address b \<le> network_address a \<and> network_address a + bsize a \<le> network_address b + bsize b"
  using bsize_pos[of a] bsize_pos[of b] unfolding is_subnet_of_def broadcast_bsize by linarith

lemma wf_prefix_bsize:
  "wf_prefix p \<longleftrightarrow> (version p = 4 \<or> version p = 6) \<and> prefixlen p \<le> max_prefixlen (version p)
     \<and> network_address p < 2 ^ max_prefixlen (version p) \<and> bsize p dvd network_address p"
  by (auto simp: wf_prefix_def bsize_def)

lemma bsize_le_iff:
  "version a = version b \<Longrightarrow> prefixlen a \<le> max_prefixlen (version a) \<Longrightarrow>
   prefixlen b \<le> max_prefixlen (version b) \<Longrightarrow> bsize a \<le> bsize b \<longleftrightarrow> prefixlen b \<le> prefixlen a"
  by (auto simp: bsize_def)

lemma bsize_eq_iff:
  "version a = version b \<Longrightarrow> prefixlen a \<le> max_prefixlen (version a) \<Longrightarrow>
   prefixlen b \<le> max_prefixlen (version b) \<Longrightarrow> bsize a = bsize b \<longleftrightarrow> prefixlen b = prefixlen a"
  by (auto simp: bsize_def)

lemma bsize_le_all: "bsize p \<le> 2 ^ max_prefixlen (version p)"
  by (simp add: bsize_def)

lemma netmask_eq_iff:
  assumes "version a = version b" "prefixlen a \<le> max_prefixlen (version a)"
    "prefixlen b \<le> max_prefixlen (version b)"
  shows "netmask a = netmask b \<longleftrightarrow> prefixlen a = prefixlen b"
proof -
  have "netmask a = netmask b \<longleftrightarrow> bsize a = bsize b"
    using bsize_le_all[of a] bsize_le_all[of b] bsize_pos[of a] bsize_pos[of b] assms(1)
    unfolding netmask_def all_ones_def hostmask_bsize by auto
  then show ?thesis using bsize_eq_iff[OF assms] by auto
qed

lemma bsize_dvd:
  "version a = version b \<Longrightarrow> prefixlen b \<le> prefixlen a \<Longrightarrow> bsize a dvd bsize b"
  by (simp add: bsize_def le_imp_power_dvd)

lemma dvd_gap:
  fixes d a c :: nat
  assumes "d dvd a" "d dvd c" "a < c"
  shows "a + d \<le> c"
proof -
  from assms(1) obtain k where k: "a = d * k" by (auto simp: dvd_def)
  from assms(2) obtain l where l: "c = d * l" by (auto simp: dvd_def)
  from assms(3) k l have "k < l" by (metis mult_less_cancel1)
  then have "Suc k \<le> l" by simp
  then have "d * Suc k \<le> d * l" by (rule mult_le_mono2)
  then show ?thesis using k l by simp
qed

lemma wf_top:
  assumes "wf_prefix p"
  shows "network_address p + bsize p \<le> 2 ^ max_prefixlen (version p)"
proof -
  have "bsize p dvd 2 ^ max_prefixlen (version p)"
    by (simp add: bsize_def le_imp_power_dvd)
  then show ?thesis using assms dvd_gap[of "bsize p" "network_address p"] by (simp add: wf_prefix_bsize)
qed

lemma subnets_halves:
  "prefixlen p < max_prefixlen (version p) \<Longrightarrow> subnets p = Inr (lo_half p, hi_half p)"
  by (simp add: subnets_def lo_half_def hi_half_def)

lemma half_fields [simp]:
  "version (lo_half p) = version p" "version (hi_half p) = version p"
  "prefixlen (lo_half p) = Suc (prefixlen p)" "prefixlen (hi_half p) = Suc (prefixlen p)"
  "network_address (lo_half p) = network_address p"
  by (simp_all add: lo_half_def hi_half_def)

lemma bsize_halves:
  assumes "prefixlen p < max_prefixlen (version p)"
  shows "bsize (lo_half p) = bsize (hi_half p)" "bsize p = 2 * bsize (lo_half p)"
    "network_address (hi_half p) = network_address p + bsize (lo_half p)"
proof -
  show "bsize (lo_half p) = bsize (hi_half p)" by (simp add: bsize_def)
  have "max_prefixlen (version p) - prefixlen p = Suc (max_prefixlen (version p) - Suc (prefixlen p))"
    using assms by simp
  then show "bsize p = 2 * bsize (lo_half p)" by (simp add: bsize_def)
  show "network_address (hi_half p) = network_address p + bsize (lo_half p)"
    by (simp add: bsize_def hi_half_def)
qed

lemma wf_halves:
  assumes "wf_prefix p" "prefixlen p < max_prefixlen (version p)"
  shows "wf_prefix (lo_half p)" "wf_prefix (hi_half p)"
proof -
  note b = bsize_halves[OF assms(2)]
  have d: "bsize (lo_half p) dvd network_address p"
    using assms(1) b(2) by (metis dvd_mult_right mult.commute wf_prefix_bsize)
  have top: "network_address p + bsize p \<le> 2 ^ max_prefixlen (version p)"
    by (rule wf_top[OF assms(1)])
  show "wf_prefix (lo_half p)"
    using assms d by (simp add: wf_prefix_bsize)
  have lt: "network_address (hi_half p) < 2 ^ max_prefixlen (version p)"
    using top b bsize_pos[of "lo_half p"] by linarith
  have d2: "bsize (hi_half p) dvd network_address (hi_half p)"
    using d b by simp
  show "wf_prefix (hi_half p)"
    using assms lt d2 by (simp add: wf_prefix_bsize)
qed

lemma net_eq_sym: "net_eq a b \<longleftrightarrow> net_eq b a"
  by (auto simp: net_eq_def)

lemma inside_half:
  assumes "wf_prefix p" "wf_prefix other" "version other = version p"
    "prefixlen p < prefixlen other" "is_subnet_of other p"
  shows "is_subnet_of other (lo_half p) \<or> is_subnet_of other (hi_half p)"
proof -
  have lt: "prefixlen p < max_prefixlen (version p)"
    using assms by (simp add: wf_prefix_bsize)
  note b = bsize_halves[OF lt]
  let ?s = "bsize other" and ?h = "bsize (lo_half p)"
  have sh: "?s dvd ?h" using assms(3,4) by (intro bsize_dvd) simp_all
  have so: "?s dvd network_address other" using assms(2) by (simp add: wf_prefix_bsize)
  have "?h dvd network_address p"
    using assms(1) b(2) by (metis dvd_mult_right mult.commute wf_prefix_bsize)
  then have sp: "?s dvd network_address p + ?h" using sh by (meson dvd_add dvd_trans)
  have sub: "network_address p \<le> network_address other"
    "network_address other + ?s \<le> network_address p + bsize p"
    using assms(5) by (simp_all add: is_subnet_of_bsize)
  show ?thesis
  proof (cases "network_address other < network_address p + ?h")
    case True
    then have "network_address other + ?s \<le> network_address p + ?h"
      using dvd_gap[OF so sp] by simp
    then have "is_subnet_of other (lo_half p)" using sub(1) by (simp add: is_subnet_of_bsize)
    then show ?thesis ..
  next
    case False
    then have "is_subnet_of other (hi_half p)"
      using sub(2) b by (simp add: is_subnet_of_bsize)
    then show ?thesis ..
  qed
qed

lemma strict_len:
  assumes "wf_prefix p" "wf_prefix other" "version other = version p"
    "is_subnet_of other p" "\<not> net_eq other p"
  shows "prefixlen p < prefixlen other"
proof -
  have le: "prefixlen other \<le> max_prefixlen (version other)" "prefixlen p \<le> max_prefixlen (version p)"
    using assms by (simp_all add: wf_prefix_bsize)
  have sub: "network_address p \<le> network_address other"
    "network_address other + bsize other \<le> network_address p + bsize p"
    using assms(4) by (simp_all add: is_subnet_of_bsize)
  then have "bsize other \<le> bsize p" by linarith
  then have "prefixlen p \<le> prefixlen other"
    using bsize_le_iff[OF assms(3) le] by simp
  moreover have "prefixlen p \<noteq> prefixlen other"
  proof
    assume e: "prefixlen p = prefixlen other"
    then have "bsize other = bsize p" using assms(3) by (simp add: bsize_def)
    then have "network_address other = network_address p" using sub by linarith
    moreover have "netmask other = netmask p"
      using netmask_eq_iff[OF assms(3) le] e by simp
    ultimately show False using assms(3,5) by (simp add: net_eq_def)
  qed
  ultimately show ?thesis by simp
qed

lemma net_eq_len:
  assumes "wf_prefix a" "wf_prefix b" "net_eq a b"
  shows "prefixlen a = prefixlen b"
  using assms netmask_eq_iff[of a b] by (simp add: net_eq_def wf_prefix_bsize)

lemma address_exclude_loop_unfold:
  "prefixlen p < max_prefixlen (version p) \<Longrightarrow>
   address_exclude_loop p other =
     (if net_eq (lo_half p) other then Inr [hi_half p]
      else if net_eq (hi_half p) other then Inr [lo_half p]
      else if subnet_of other (lo_half p) then
        (case address_exclude_loop (lo_half p) other of
           Inl e \<Rightarrow> Inl e
         | Inr rest \<Rightarrow> Inr (hi_half p # rest))
      else if subnet_of other (hi_half p) then
        (case address_exclude_loop (hi_half p) other of
           Inl e \<Rightarrow> Inl e
         | Inr rest \<Rightarrow> Inr (lo_half p # rest))
      else Inl AssertionError)"
  by (subst address_exclude_loop.simps) (simp add: subnets_halves split: sum.splits)

lemma address_exclude_loop_ok:
  "wf_prefix p \<Longrightarrow> wf_prefix other \<Longrightarrow> version other = version p \<Longrightarrow>
   prefixlen p < prefixlen other \<Longrightarrow> is_subnet_of other p \<Longrightarrow> n = prefixlen other - prefixlen p \<Longrightarrow>
   \<exists>xs. address_exclude_loop p other = Inr xs \<and> length xs = prefixlen other - prefixlen p
        \<and> (\<forall>x\<in>set xs. wf_prefix x \<and> version x = version p)"
proof (induction n arbitrary: p)
  case 0
  then show ?case by simp
next
  case (Suc n)
  have lt: "prefixlen p < max_prefixlen (version p)"
    using Suc.prems by (simp add: wf_prefix_bsize)
  note wfh = wf_halves[OF Suc.prems(1) lt]
  note ih = inside_half[OF Suc.prems(1,2,3,4,5)]
  show ?case
  proof (cases "net_eq (lo_half p) other")
    case True
    then have "prefixlen other = Suc (prefixlen p)"
      using net_eq_len[OF wfh(1) Suc.prems(2)] by simp
    then show ?thesis using True wfh
      by (subst address_exclude_loop_unfold[OF lt]) simp
  next
    case nlo: False
    show ?thesis
    proof (cases "net_eq (hi_half p) other")
      case True
      then have "prefixlen other = Suc (prefixlen p)"
        using net_eq_len[OF wfh(2) Suc.prems(2)] by simp
      then show ?thesis using True nlo wfh
        by (subst address_exclude_loop_unfold[OF lt]) simp
    next
      case nhi: False
      have nlo': "\<not> net_eq other (lo_half p)" using nlo net_eq_sym[of other "lo_half p"] by blast
      have nhi': "\<not> net_eq other (hi_half p)" using nhi net_eq_sym[of other "hi_half p"] by blast
      show ?thesis
      proof (cases "subnet_of other (lo_half p)")
        case True
        then have sub: "is_subnet_of other (lo_half p)"
          by (simp add: subnet_of_def split: if_splits)
        have v: "version other = version (lo_half p)" using Suc.prems(3) by simp
        have l: "prefixlen (lo_half p) < prefixlen other"
          by (rule strict_len[OF wfh(1) Suc.prems(2) v sub nlo'])
        have "n = prefixlen other - prefixlen (lo_half p)" using Suc.prems(6) by simp
        from Suc.IH[OF wfh(1) Suc.prems(2) v l sub this]
        obtain xs where xs: "address_exclude_loop (lo_half p) other = Inr xs"
          "length xs = prefixlen other - prefixlen (lo_half p)"
          "\<forall>x\<in>set xs. wf_prefix x \<and> version x = version (lo_half p)" by blast
        have "address_exclude_loop p other = Inr (hi_half p # xs)"
          using nlo nhi True xs(1) by (subst address_exclude_loop_unfold[OF lt]) simp
        then show ?thesis using xs(2,3) wfh(2) l by simp
      next
        case nsl: False
        then have "\<not> is_subnet_of other (lo_half p)"
          using Suc.prems(3) by (simp add: subnet_of_def)
        then have sub: "is_subnet_of other (hi_half p)" using ih by simp
        then have sub': "subnet_of other (hi_half p)"
          using Suc.prems(3) by (simp add: subnet_of_def)
        have v: "version other = version (hi_half p)" using Suc.prems(3) by simp
        have l: "prefixlen (hi_half p) < prefixlen other"
          by (rule strict_len[OF wfh(2) Suc.prems(2) v sub nhi'])
        have "n = prefixlen other - prefixlen (hi_half p)" using Suc.prems(6) by simp
        from Suc.IH[OF wfh(2) Suc.prems(2) v l sub this]
        obtain xs where xs: "address_exclude_loop (hi_half p) other = Inr xs"
          "length xs = prefixlen other - prefixlen (hi_half p)"
          "\<forall>x\<in>set xs. wf_prefix x \<and> version x = version (hi_half p)" by blast
        have "address_exclude_loop p other = Inr (lo_half p # xs)"
          using nlo nhi nsl sub' xs(1) by (subst address_exclude_loop_unfold[OF lt]) simp
        then show ?thesis using xs(2,3) wfh(1) l by simp
      qed
    qed
  qed
qed

lemma pfx_fields [simp]:
  "version (pfx x) = version x" "network_address (pfx x) = network_address x"
  "prefixlen (pfx x) = prefixlen x"
  by (simp_all add: pfx_def)

lemma pfx_props [simp]:
  "wf_prefix (pfx x) = wf_prefix x" "bsize (pfx x) = bsize x"
  "is_subnet_of (pfx a) (pfx b) = is_subnet_of a b"
  by (simp_all add: wf_prefix_def bsize_def is_subnet_of_bsize)

lemma mutual_subnet_eq:
  assumes "wf_prefix a" "wf_prefix b" "version a = version b"
    "is_subnet_of a b" "is_subnet_of b a"
  shows "net_eq a b"
proof (rule ccontr)
  assume n: "\<not> net_eq a b"
  then have n': "\<not> net_eq b a" using net_eq_sym[of a b] by blast
  have "prefixlen b < prefixlen a" by (rule strict_len[OF assms(2,1,3,4) n])
  moreover have "prefixlen a < prefixlen b"
    by (rule strict_len[OF assms(1,2) assms(3)[symmetric] assms(5) n'])
  ultimately show False by simp
qed

lemma address_exclude_ok:
  assumes "wf_prefix p" "wf_prefix e" "version e = version p"
    "subnet_of e p" "\<not> net_eq e p"
  shows "\<exists>xs. address_exclude p e = Inr xs \<and> xs \<noteq> []
           \<and> length xs = prefixlen e - prefixlen p
           \<and> (\<forall>x\<in>set xs. wf_prefix x \<and> version x = version p)"
proof -
  have sub: "is_subnet_of e p" using assms(4) by (simp add: subnet_of_def split: if_splits)
  have l: "prefixlen p < prefixlen e" by (rule strict_len[OF assms(1,2,3) sub assms(5)])
  have "\<exists>xs. address_exclude_loop (pfx p) (pfx e) = Inr xs
          \<and> length xs = prefixlen (pfx e) - prefixlen (pfx p)
          \<and> (\<forall>x\<in>set xs. wf_prefix x \<and> version x = version (pfx p))"
    by (rule address_exclude_loop_ok[where n = "prefixlen (pfx e) - prefixlen (pfx p)"])
       (use assms(1,2,3) l sub in simp_all)
  then obtain xs where xs: "address_exclude_loop (pfx p) (pfx e) = Inr xs"
    "length xs = prefixlen e - prefixlen p"
    "\<forall>x\<in>set xs. wf_prefix x \<and> version x = version p" by auto
  have "address_exclude p e = Inr xs"
    using assms(3,4,5) xs(1) by (simp add: address_exclude_def)
  moreover have "xs \<noteq> []" using xs(2) l by auto
  ultimately show ?thesis using xs(2,3) by blast
qed

lemma sorted_nets_same_version:
  "\<forall>a\<in>set xs. version (h ! a) = v \<Longrightarrow>
   sorted_nets h xs = Inr (sort_key (\<lambda>a. (network_address (h ! a), netmask (h ! a))) xs)"
  by (simp add: sorted_nets_def)

lemma sup_heap_facts:
  "wf_prefix (sup_heap ! 0)" "wf_prefix (sup_heap ! 1)"
  "version (sup_heap ! 1) = version (sup_heap ! 0)"
  "subnet_of (sup_heap ! 1) (sup_heap ! 0)" "\<not> net_eq (sup_heap ! 1) (sup_heap ! 0)"
  by (simp_all add: sup_heap_def IP_def net4_def wf_prefix_def max_prefixlen_def subnet_of_def
        is_subnet_of_def broadcast_address_def hostmask_def net_eq_def netmask_def all_ones_def)

lemma sup_exclude:
  "address_exclude (sup_heap ! 0) (sup_heap ! 1) = Inr [net4 176160768 9]"
  unfolding address_exclude_def
  apply (subst address_exclude_loop.simps)
  apply (simp add: sup_heap_def IP_def net4_def pfx_def subnets_def max_prefixlen_def subnet_of_def
        is_subnet_of_def broadcast_address_def hostmask_def net_eq_def netmask_def all_ones_def)
  done

lemma sup_remove:
  "RemoveAddressFromList sup_heap [0] 1 = Inr ([2], sup_heap @ [IP (net4 176160768 9) [] []])"
proof -
  have "RemoveAddressFromList_loop sup_heap [0] 1 [] = Inr ([2], sup_heap @ [IP (net4 176160768 9) [] []])"
    using sup_heap_facts sup_exclude
    by (simp add: subnet_of_def is_subnet_of_def broadcast_address_def hostmask_def
          max_prefixlen_def sup_heap_def IP_def net4_def)
  then show ?thesis
    unfolding RemoveAddressFromList_def by (simp add: sorted_nets_def)
qed

text \<open>
  Claim C7 as stated fails: the single child of 10.0.0.0/8 (comment "sup", token "t") minus
  10.0.0.0/9 is 10.128.0.0/9 with empty comment and empty token.
\<close>

theorem RemoveAddressFromList_children_counterexample:
  "RemoveAddressFromList sup_heap [0] 1 = Inr ([2], sup_heap @ [IP (net4 176160768 9) [] []])
   \<and> text' (sup_heap ! 0) = ''sup'' \<and> token (sup_heap ! 0) = ''t''
   \<and> text' ((sup_heap @ [IP (net4 176160768 9) [] []]) ! 2) = []
   \<and> token ((sup_heap @ [IP (net4 176160768 9) [] []]) ! 2) = []"
  using sup_remove by (simp add: sup_heap_def IP_def)

text \<open>
  Claim C7, amended: for an annotated prefix \<open>p\<close> and an exclude prefix \<open>e\<close> of the same version
  strictly inside \<open>p\<close> (both well-formed networks), \<open>RemoveAddressFromList([p], e)\<close> returns
  \<open>e.prefixlen - p.prefixlen\<close> (at least one) child prefixes, all newly built by \<open>IP(x)\<close>
  with the default arguments: comment, token and parent token of every child are empty,
  those of \<open>p\<close> are not inherited.
\<close>

theorem RemoveAddressFromList_children:
  assumes "wf_prefix (h ! p)" "wf_prefix (h ! e)" "version (h ! e) = version (h ! p)"
    "subnet_of (h ! e) (h ! p)" "\<not> net_eq (h ! e) (h ! p)"
  shows "\<exists>refs h'. RemoveAddressFromList h [p] e = Inr (refs, h') \<and> refs \<noteq> []
           \<and> length refs = prefixlen (h ! e) - prefixlen (h ! p)
           \<and> (\<forall>c\<in>set refs. length h \<le> c \<and> c < length h'
                 \<and> text' (h' ! c) = [] \<and> token (h' ! c) = [] \<and> parent_token (h' ! c) = [])"
proof -
  from address_exclude_ok[OF assms] obtain xs where
    xs: "address_exclude (h ! p) (h ! e) = Inr xs" "xs \<noteq> []"
      "length xs = prefixlen (h ! e) - prefixlen (h ! p)"
      "\<forall>x\<in>set xs. wf_prefix x \<and> version x = version (h ! p)" by blast
  let ?h' = "h @ map (\<lambda>x. IP x [] []) xs"
  let ?new = "[length h ..< length h + length xs]"
  have sub: "is_subnet_of (h ! e) (h ! p)"
    using assms(4) by (simp add: subnet_of_def split: if_splits)
  have nsub: "\<not> subnet_of (h ! p) (h ! e)"
  proof
    assume "subnet_of (h ! p) (h ! e)"
    then have "is_subnet_of (h ! p) (h ! e)" by (simp add: subnet_of_def split: if_splits)
    then show False using mutual_subnet_eq[OF assms(2,1,3) sub] assms(5) by simp
  qed
  have loop: "RemoveAddressFromList_loop h [p] e [] = Inr (?new, ?h')"
    using assms(3,4,5) nsub xs(1) by simp
  have new: "\<And>c. c \<in> set ?new \<Longrightarrow> ?h' ! c = IP (xs ! (c - length h)) [] []"
    by (auto simp: nth_append)
  have ver: "\<forall>a\<in>set ?new. version (?h' ! a) = version (h ! p)"
    using xs(4) new by (auto simp: IP_def)
  have srt: "sorted_nets ?h' ?new =
     Inr (sort_key (\<lambda>a. (network_address (?h' ! a), netmask (?h' ! a))) ?new)"
    by (rule sorted_nets_same_version[OF ver])
  let ?refs = "sort_key (\<lambda>a. (network_address (?h' ! a), netmask (?h' ! a))) ?new"
  have res: "RemoveAddressFromList h [p] e = Inr (?refs, ?h')"
    unfolding RemoveAddressFromList_def loop by (simp add: srt)
  have set_refs: "set ?refs = set ?new" by simp
  have len: "length ?refs = length xs" by simp
  have props: "\<forall>c\<in>set ?refs. length h \<le> c \<and> c < length ?h'
          \<and> text' (?h' ! c) = [] \<and> token (?h' ! c) = [] \<and> parent_token (?h' ! c) = []"
  proof
    fix c assume "c \<in> set ?refs"
    then have c: "c \<in> set ?new" unfolding set_refs .
    then have "length h \<le> c" "c < length ?h'" by simp_all
    moreover have "?h' ! c = IP (xs ! (c - length h)) [] []" by (rule new[OF c])
    ultimately show "length h \<le> c \<and> c < length ?h'
          \<and> text' (?h' ! c) = [] \<and> token (?h' ! c) = [] \<and> parent_token (?h' ! c) = []"
      by (simp add: IP_def)
  qed
  have ne: "?refs \<noteq> []" using len xs(2) by (metis length_0_conv)
  have len': "length ?refs = prefixlen (h ! e) - prefixlen (h ! p)" using len xs(3) by simp
  show ?thesis
    by (intro exI[of _ ?refs] exI[of _ ?h'] conjI res ne len' props)
qed


theorem RemoveAddressFromList_children_witness:
  "wf_prefix (sup_heap ! 0) \<and> wf_prefix (sup_heap ! 1)
   \<and> version (sup_heap ! 1) = version (sup_heap ! 0)
   \<and> subnet_of (sup_heap ! 1) (sup_heap ! 0) \<and> \<not> net_eq (sup_heap ! 1) (sup_heap ! 0)
   \<and> (\<exists>refs h'. RemoveAddressFromList sup_heap [0] 1 = Inr (refs, h') \<and> refs \<noteq> []
           \<and> length refs = prefixlen (sup_heap ! 1) - prefixlen (sup_heap ! 0)
           \<and> (\<forall>c\<in>set refs. length sup_heap \<le> c \<and> c < length h'
                 \<and> text' (h' ! c) = [] \<and> token (h' ! c) = [] \<and> parent_token (h' ! c) = []))"
  using RemoveAddressFromList_children[of sup_heap 0 1] sup_heap_facts by simp


section \<open>What a call leaves of its arguments\<close>

text \<open>
  Every step of the collapser either leaves the heap alone, adds a comment to one object by
  \<open>AddComment\<close>, or appends a new object; \<open>RemoveAddressFromList\<close> only appends. So each
  loop, and each entry point built from them, keeps the frame.
\<close>

lemma same_but_text_refl [simp]: "same_but_text a a"
  by (simp add: same_but_text_def)


lemma same_but_text_AddComment [simp]: "same_but_text a (AddComment a c)"
  by (simp add: same_but_text_def AddComment_def)

lemma frame_refl [simp]: "frame h h"
  by (simp add: frame_def)





























section \<open>Supernet at prefix length zero\<close>

text \<open>
  The override answers a prefix of length 0 with the prefix itself, whatever the requested
  difference; PrefixlenDiffInvalidError is raised exactly when the prefix length is positive
  and smaller than the requested difference.
\<close>

lemma supernet_cases:
  "(prefixlen p = 0 \<longrightarrow> supernet p d = Inr (True, p))
   \<and> (supernet p d = Inl PrefixlenDiffInvalidError \<longleftrightarrow> 0 < prefixlen p \<and> prefixlen p < d)"
  by (simp add: supernet_def base_supernet_def Let_def)

text \<open>
  Claim C8: taking the supernet of a prefix of length 0 raises PrefixlenDiffInvalidError.
  The docstring of both \<open>supernet\<close> methods promises the same (``Raised when prefixlen -
  prefixlen_diff results in a negative number''). The code does otherwise: for the IPv4
  network 0.0.0.0/0 and the default difference 1, where 0 - 1 is negative, \<open>supernet\<close>
  returns the network itself and raises nothing.
\<close>

theorem supernet_len0_returns_self:
  "supernet (IP (net4 0 0) [] []) 1 = Inr (True, IP (net4 0 0) [] [])
   \<and> supernet (IP (net4 0 0) [] []) 1 \<noteq> Inl PrefixlenDiffInvalidError"
  by (simp add: supernet_def IP_def net4_def)

section \<open>The safety oracle decides by the net masks\<close>

lemma SafeToMerge_loop_Cons:
  "version c = version m \<Longrightarrow> version c = version a \<Longrightarrow>
   SafeToMerge_loop a m (c # cs) =
     (if netmask m \<le> netmask c \<and> netmask c < netmask a then Inr False
      else SafeToMerge_loop a m cs)"
  by (simp add: addr_le_def addr_lt_def netmask_addr_def)

lemma SafeToMerge_loop_step:
  assumes v: "version c = version m" "version c = version a"
    and IH: "SafeToMerge_loop a m cs =
       Inr (\<not> (\<exists>c\<in>set cs. netmask m \<le> netmask c \<and> netmask c < netmask a))"
  shows "SafeToMerge_loop a m (c # cs) =
     Inr (\<not> (\<exists>c\<in>set (c # cs). netmask m \<le> netmask c \<and> netmask c < netmask a))"
  unfolding SafeToMerge_loop_Cons[OF v] IH by auto

lemma same_version_Cons:
  assumes "\<forall>x\<in>set (c # cs). version x = version m \<and> version x = version (a::nacaddr)"
  shows "version (c::nacaddr) = version (m::nacaddr)" "version c = version a"
    "\<forall>x\<in>set cs. version x = version m \<and> version x = version a"
  using assms
  by (metis list.set_intros(1), metis list.set_intros(1), metis list.set_intros(2))

lemma SafeToMerge_loop_iff:
  "(\<forall>c\<in>set cs. version c = version m \<and> version c = version a) \<Longrightarrow>
   SafeToMerge_loop a m cs =
     Inr (\<not> (\<exists>c\<in>set cs. netmask m \<le> netmask c \<and> netmask c < netmask a))"
proof (induction cs)
  case Nil
  show ?case by simp
next
  case (Cons c cs)
  note v = same_version_Cons[OF Cons.prems]
  show ?case
    by (rule SafeToMerge_loop_step[OF v(1) v(2) Cons.IH[OF v(3)]])
qed

text \<open>
  When every complement anchored at the candidate's network address has the IP version of
  candidate and merge target, \<open>_SafeToMerge\<close> returns False exactly when some complement
  \<open>c\<close> at that address has \<open>m.netmask <= c.netmask < a.netmask\<close>, and True otherwise; with
  no complement at that address it returns True.
\<close>

lemma SafeToMerge_same_version:
  assumes "\<forall>c\<in>set (dict_get C (network_addr a)). version c = version m \<and> version c = version a"
  shows "(SafeToMerge a m C = Inr False \<longleftrightarrow>
            (\<exists>c\<in>set (dict_get C (network_addr a)). netmask m \<le> netmask c \<and> netmask c < netmask a))
         \<and> (SafeToMerge a m C = Inr True \<longleftrightarrow>
            \<not> (\<exists>c\<in>set (dict_get C (network_addr a)). netmask m \<le> netmask c \<and> netmask c < netmask a))
         \<and> (C (network_addr a) = None \<longrightarrow> SafeToMerge a m C = Inr True)"
proof -
  have "SafeToMerge a m C =
      Inr (\<not> (\<exists>c\<in>set (dict_get C (network_addr a)). netmask m \<le> netmask c \<and> netmask c < netmask a))"
    unfolding SafeToMerge_def by (rule SafeToMerge_loop_iff[OF assms])
  moreover have "C (network_addr a) = None \<Longrightarrow> dict_get C (network_addr a) = []"
    by (simp add: dict_get_def)
  ultimately show ?thesis by auto
qed

text \<open>
  The triple of the specification: candidate 10.0.0.0/10, merge target 10.0.0.0/8 and the
  complement 10.0.0.0/9 give False; without a complement, True.
\<close>

lemma SafeToMerge_same_version_example:
  "SafeToMerge (IP (net4 167772160 10) [] []) (IP (net4 167772160 8) [] [])
     [(4, 167772160) \<mapsto> [IP (net4 167772160 9) [] []]] = Inr False
   \<and> SafeToMerge (IP (net4 167772160 10) [] []) (IP (net4 167772160 8) [] []) Map.empty = Inr True"
proof -
  have h1: "\<forall>c\<in>set (dict_get [(4, 167772160) \<mapsto> [IP (net4 167772160 9) [] []]]
                      (network_addr (IP (net4 167772160 10) [] []))).
              version c = version (IP (net4 167772160 8) [] [])
              \<and> version c = version (IP (net4 167772160 10) [] [])"
    by (simp add: dict_get_def network_addr_def IP_def net4_def)
  have h2: "\<forall>c\<in>set (dict_get Map.empty (network_addr (IP (net4 167772160 10) [] []))).
              version c = version (IP (net4 167772160 8) [] [])
              \<and> version c = version (IP (net4 167772160 10) [] [])"
    by (simp add: dict_get_def)
  show ?thesis
    using SafeToMerge_same_version[OF h1] SafeToMerge_same_version[OF h2]
    by (simp add: dict_get_def network_addr_def IP_def net4_def netmask_def all_ones_def
          hostmask_def max_prefixlen_def)
qed

subsection \<open>Candidate and merge target of different versions\<close>

text \<open>
  The list \<open>[::/8, 1.0.0.0/8]\<close> with the complement \<open>[::/16]\<close>: objects 0, 1 and 2 of the
  heap. The complement is filed under the network address \<open>::\<close> of object 0; the sort by
  the mixed-type key puts the IPv4 network first; the linked list holds the two in that
  order.
\<close>

lemma mixed_complements_dict:
  "complements_dict [IP (net6 0 8) [] [], IP (net4 16777216 8) [] [], IP (net6 0 16) [] []]
     [0, Suc 0] [2] = [(6, 0) \<mapsto> [2]]"
  by (simp add: complements_dict_def network_addr_def IP_def net4_def net6_def dict_get_def)

lemma mixed_key_order:
  "\<not> get_mixed_type_key (IP (net6 0 8) [] []) \<le> get_mixed_type_key (IP (net4 16777216 8) [] [])"
  by (simp add: get_mixed_type_key_def netmask_def all_ones_def hostmask_def max_prefixlen_def
        network_addr_def netmask_addr_def IP_def net4_def net6_def)

lemma mixed_build_list:
  "build_list [0] ([LinkedList (Suc 0)], 0, [0]) =
     ([\<lparr>nxt = Some (Suc 0), prv = None, val = Suc 0\<rparr>, \<lparr>nxt = None, prv = Some 0, val = 0\<rparr>],
      Suc 0, [0, Suc 0])"
  by (simp add: build_list_def Add_def LinkedList_def)

lemma mixed_collapse_step:
  "collapse_step [(6, 0) \<mapsto> [2]]
     \<lparr>heap = [IP (net6 0 8) [] [], IP (net4 16777216 8) [] [], IP (net6 0 16) [] []],
      nodes = [\<lparr>nxt = Some (Suc 0), prv = None, val = Suc 0\<rparr>,
               \<lparr>nxt = None, prv = Some 0, val = 0\<rparr>],
      fringe = [0, Suc 0]\<rparr> = Inl TypeError"
  by (simp add: collapse_step_def SafeToMerge_def dict_get_def deref_def addr_le_def
        netmask_def all_ones_def hostmask_def max_prefixlen_def network_addr_def
        netmask_addr_def IP_def net4_def net6_def)

text \<open>
  Claim C1: for every candidate \<open>a\<close>, merge target \<open>m\<close> and complement set \<open>C\<close>,
  \<open>_SafeToMerge(a, m, C)\<close> returns True or False by the net-mask rule. The docstring
  promises the same (``True if safe to merge, False otherwise''), and mixed-version lists
  are a legitimate input whose version mismatches are to be skipped. The code does
  otherwise when the merge target is of another version than the complements at the
  candidate's address: for the candidate \<open>::/8\<close>, the merge target \<open>1.0.0.0/8\<close> and the
  complement \<open>::/16\<close> the comparison \<open>255.0.0.0 <= ffff::\<close> of two net masks of different
  versions raises TypeError, and so does \<open>CollapseAddrList([::/8, 1.0.0.0/8], [::/16])\<close>,
  which asks exactly that question.
\<close>

theorem SafeToMerge_mixed_version_raises:
  "SafeToMerge (IP (net6 0 8) [] []) (IP (net4 16777216 8) [] [])
     [(6, 0) \<mapsto> [IP (net6 0 16) [] []]] = Inl TypeError
   \<and> CollapseAddrList [IP (net6 0 8) [] [], IP (net4 16777216 8) [] [], IP (net6 0 16) [] []]
       [0, 1] (Some [2]) = Some (Inl TypeError)"
proof
  show "SafeToMerge (IP (net6 0 8) [] []) (IP (net4 16777216 8) [] [])
     [(6, 0) \<mapsto> [IP (net6 0 16) [] []]] = Inl TypeError"
    by (simp add: SafeToMerge_def dict_get_def addr_le_def netmask_def all_ones_def
          hostmask_def max_prefixlen_def network_addr_def netmask_addr_def IP_def
          net4_def net6_def)
next
  show "CollapseAddrList [IP (net6 0 8) [] [], IP (net4 16777216 8) [] [], IP (net6 0 16) [] []]
       [0, 1] (Some [2]) = Some (Inl TypeError)"
    apply (simp add: CollapseAddrList_def mixed_complements_dict CollapseAddrListInternal_def
        mixed_build_list mixed_key_order)
    apply (subst collapse_loop.simps)
    apply (simp add: mixed_collapse_step)
    done
qed

end
